theory Spec2Isabelle
  imports Complex_Main "HOL-Library.Multiset" "HOL-Library.Extended_Nat" "HOL-Library.List_Lexorder"
begin

section \<open>Data model of \<open>path.py\<close>\<close>

text \<open>
  \<open>path.py\<close> is a straight-line script: it parses two GeoJSON feature lists, collects
  graph nodes, builds a visibility graph, fills a distance matrix between the points of
  interest, searches all visiting orders by brute force and prints the assembled path.
  Each block of the script is one function below; \<open>run\<close> composes them in script order.

  Numbers are Python floats (and the int \<open>0\<close>).  They are kept abstract as a type \<open>'r\<close>
  that is linearly ordered (floats other than NaN are) and has \<open>0\<close>, \<open>+\<close> and \<open>-\<close>; nothing is
  assumed about the arithmetic, so rounding and overflow of float addition are covered.
  \<open>float("inf")\<close> is a value \<open>infty\<close> of that type, handed to the functions that use it.
\<close>

datatype py_error = NameError | KeyError | IndexError | NetworkXNoPath

type_synonym 'r point = "'r \<times> 'r"

text \<open>A shapely polygon: \<open>exterior.coords\<close> and the \<open>coords\<close> of each of its \<open>interiors\<close>.\<close>

record 'r polygon =
  exterior :: "'r point list"
  interiors :: "'r point list list"

text \<open>
  The value of \<open>shape(feature["geometry"])\<close>.  The script only tells \<open>Point\<close> and \<open>Polygon\<close>
  apart from everything else.  Whatever \<open>shape\<close> itself rejects is outside this model: a
  geometry here is one that shapely has already built.
\<close>

datatype 'r geometry = Point "'r point" | Polygon "'r polygon" | OtherGeometry

record 'r feature =
  geometry :: "'r geometry"

text \<open>A networkx \<open>Graph\<close>: nodes and weighted undirected edges, both in insertion order.\<close>

record 'r graph =
  graph_nodes :: "'r point list"
  graph_edges :: "('r point \<times> 'r point \<times> 'r) list"

text \<open>
  The library calls of the script are not part of the repository; they are parameters.
  Of shapely and \<open>math\<close> the script calls \<open>intersects\<close> and \<open>touches\<close>, here on the two
  coordinates of \<open>LineString([p1, p2])\<close> in the order given, and \<open>hypot\<close>.
\<close>

record 'r geometry_library =
  intersects :: "'r point \<times> 'r point \<Rightarrow> 'r polygon \<Rightarrow> bool"
  touches :: "'r point \<times> 'r point \<Rightarrow> 'r polygon \<Rightarrow> bool"
  hypot :: "'r \<Rightarrow> 'r \<Rightarrow> 'r"

text \<open>
  Of networkx it calls \<open>shortest_path_length\<close> and \<open>shortest_path\<close> with \<open>weight="weight"\<close>;
  both return \<open>None\<close> here where networkx raises \<open>NetworkXNoPath\<close>.
\<close>

record 'r networkx =
  shortest_path_length :: "'r graph \<Rightarrow> 'r point \<Rightarrow> 'r point \<Rightarrow> 'r option"
  shortest_path :: "'r graph \<Rightarrow> 'r point \<Rightarrow> 'r point \<Rightarrow> 'r point list option"

text \<open>What the script prints last: the failure message or the path.\<close>

datatype 'r outcome = NoValidPath | OptimalPath "'r point list"

section \<open>Parsing (lines 20--33)\<close>

text \<open>
  The POI loop over \<open>pois_data\<close> (the feature list after the slice \<open>[:8]\<close>).  The second
  component of the state is the module-level variable
  \<open>feature\<close>, unbound (\<open>None\<close>) until the loop has run once; it stays bound after the
  loop.
\<close>

fun parse_pois ::
  "'r feature list \<Rightarrow> 'r point list \<times> 'r feature option \<Rightarrow> 'r point list \<times> 'r feature option"
where
  "parse_pois [] st = st"
| "parse_pois (f # fs) (pois, feature) =
     (case geometry f of
        Point p \<Rightarrow> parse_pois fs (pois @ [p], Some f)
      | _ \<Rightarrow> parse_pois fs (pois, Some f))"

text \<open>
  The boundaries loop binds \<open>feaature\<close> but reads \<open>feature\<close>: the loop variable (the head
  of the list) is not used in the body.  Reading an unbound \<open>feature\<close> is a \<open>NameError\<close>.
\<close>

fun parse_boundaries ::
  "'r feature option \<Rightarrow> 'r feature list \<Rightarrow> 'r polygon list \<Rightarrow> py_error + 'r polygon list"
where
  "parse_boundaries feature [] boundaries = Inr boundaries"
| "parse_boundaries feature (feaature # rest) boundaries =
     (case feature of
        None \<Rightarrow> Inl NameError
      | Some f \<Rightarrow>
          (case geometry f of
             Polygon geom \<Rightarrow> parse_boundaries feature rest (boundaries @ [geom])
           | _ \<Rightarrow> parse_boundaries feature rest boundaries))"

definition parse ::
  "'r feature list \<Rightarrow> 'r feature list \<Rightarrow> py_error + 'r point list \<times> 'r polygon list"
where
  "parse pois_data boundaries_data =
     (case parse_pois pois_data ([], None) of
        (pois, feature) \<Rightarrow>
          (case parse_boundaries feature boundaries_data [] of
             Inl e \<Rightarrow> Inl e
           | Inr boundaries \<Rightarrow> Inr (pois, boundaries)))"

section \<open>Nodes and visibility graph (lines 35--74)\<close>

text \<open>
  All POI coordinates, then the exterior and interior ring coordinates of every obstacle,
  deduplicated by \<open>list(set(nodes))\<close>: a Python set keeps one of any two equal tuples and
  compares coordinates with \<open>==\<close>.  The iteration order of a set is unspecified; \<open>remdups\<close>
  fixes one, and nothing proved below depends on it.
\<close>

definition collect_nodes :: "'r point list \<Rightarrow> 'r polygon list \<Rightarrow> 'r point list" where
  "collect_nodes pois boundaries =
     remdups (pois @ concat (map (\<lambda>boundary. exterior boundary @ concat (interiors boundary)) boundaries))"

definition add_node :: "'r graph \<Rightarrow> 'r point \<Rightarrow> 'r graph" where
  "add_node G node =
     (if node \<in> set (graph_nodes G) then G else G\<lparr>graph_nodes := graph_nodes G @ [node]\<rparr>)"

text \<open>\<open>G.add_edge(u, v, weight=w)\<close>: an edge already present between the two nodes is replaced.\<close>

definition add_edge :: "'r graph \<Rightarrow> 'r point \<Rightarrow> 'r point \<Rightarrow> 'r \<Rightarrow> 'r graph" where
  "add_edge G u v w =
     (add_node (add_node G u) v)
       \<lparr>graph_edges :=
          filter (\<lambda>(a, b, x). \<not> (a = u \<and> b = v \<or> a = v \<and> b = u)) (graph_edges G) @ [(u, v, w)]\<rparr>"

fun is_valid_edge :: "'r geometry_library \<Rightarrow> 'r point \<Rightarrow> 'r point \<Rightarrow> 'r polygon list \<Rightarrow> bool" where
  "is_valid_edge geo p1 p2 [] = True"
| "is_valid_edge geo p1 p2 (boundary # rest) =
     (if intersects geo (p1, p2) boundary \<and> \<not> touches geo (p1, p2) boundary then False
      else is_valid_edge geo p1 p2 rest)"

text \<open>The inner loop \<open>for j in range(i + 1, len(nodes))\<close> for one \<open>i\<close>.\<close>

definition add_edges_from ::
  "('r::{minus}) geometry_library \<Rightarrow> 'r point list \<Rightarrow> 'r polygon list \<Rightarrow> 'r graph \<Rightarrow> nat \<Rightarrow> 'r graph"
where
  "add_edges_from geo nodes boundaries G i =
     foldl (\<lambda>G j.
         let p1 = nodes ! i; p2 = nodes ! j in
         if is_valid_edge geo p1 p2 boundaries
         then add_edge G p1 p2 (hypot geo (fst p2 - fst p1) (snd p2 - snd p1))
         else G)
       G [i + 1..<length nodes]"

definition build_graph ::
  "('r::{minus}) geometry_library \<Rightarrow> 'r point list \<Rightarrow> 'r polygon list \<Rightarrow> 'r graph"
where
  "build_graph geo nodes boundaries =
     foldl (add_edges_from geo nodes boundaries)
       (foldl add_node \<lparr>graph_nodes = [], graph_edges = []\<rparr> nodes)
       [0..<length nodes]"

section \<open>Distance matrix (lines 76--94)\<close>

text \<open>
  The dict \<open>distance_matrix\<close>, keyed by index pairs.  \<open>i\<close> and \<open>j\<close> range over
  \<open>range(len(poi_coords))\<close>, so \<open>poi_coords[i]\<close> is always in range.
\<close>

definition distance_matrix_row ::
  "('r::{zero}) networkx \<Rightarrow> 'r \<Rightarrow> 'r graph \<Rightarrow> 'r point list \<Rightarrow> (nat \<times> nat \<rightharpoonup> 'r) \<Rightarrow> nat \<Rightarrow> (nat \<times> nat \<rightharpoonup> 'r)"
where
  "distance_matrix_row nx infty G poi_coords dm i =
     foldl (\<lambda>dm j.
         if i = j then dm((i, j) \<mapsto> 0)
         else (case shortest_path_length nx G (poi_coords ! i) (poi_coords ! j) of
                 Some d \<Rightarrow> dm((i, j) \<mapsto> d)
               | None \<Rightarrow> dm((i, j) \<mapsto> infty)))
       dm [0..<length poi_coords]"

definition distance_matrix ::
  "('r::{zero}) networkx \<Rightarrow> 'r \<Rightarrow> 'r graph \<Rightarrow> 'r point list \<Rightarrow> (nat \<times> nat \<rightharpoonup> 'r)"
where
  "distance_matrix nx infty G poi_coords =
     foldl (distance_matrix_row nx infty G poi_coords) Map.empty [0..<length poi_coords]"

text \<open>The value the two loops store under the key \<open>(i, j)\<close>.\<close>

definition matrix_entry :: "('r::zero) networkx \<Rightarrow> 'r \<Rightarrow> 'r graph \<Rightarrow> 'r point list \<Rightarrow> nat \<Rightarrow> nat \<Rightarrow> 'r" where
  "matrix_entry nx infty G poi_coords i j =
     (if i = j then 0
      else (case shortest_path_length nx G (poi_coords ! i) (poi_coords ! j) of
              Some d \<Rightarrow> d
            | None \<Rightarrow> infty))"

section \<open>Brute-force search over visiting orders (lines 96--111)\<close>

text \<open>
  \<open>itertools.permutations\<close>: every arrangement of the pool, emitted in lexicographic order
  of positions: first all that start with the first element of the pool, and so on.
\<close>

function permutations :: "'a list \<Rightarrow> 'a list list" where
  "permutations [] = [[]]"
| "permutations (x # xs) =
     concat (map (\<lambda>i. map ((#) ((x # xs) ! i))
                        (permutations (take i (x # xs) @ drop (Suc i) (x # xs))))
               [0..<length (x # xs)])"
  by pat_completeness auto
termination
  by (relation "measure length") auto

text \<open>
  The inner loop over \<open>zip(current, current[1:])\<close>, with the state \<open>(valid, total)\<close>.  A key
  missing from the dict is a \<open>KeyError\<close>; an unreachable leg ends the loop with
  \<open>valid = False\<close>.
\<close>

fun add_legs ::
  "('r::{plus}) \<Rightarrow> (nat \<times> nat \<rightharpoonup> 'r) \<Rightarrow> (nat \<times> nat) list \<Rightarrow> 'r \<Rightarrow> py_error + bool \<times> 'r"
where
  "add_legs infty dm [] total' = Inr (True, total')"
| "add_legs infty dm ((a, b) # rest) total' =
     (case dm (a, b) of
        None \<Rightarrow> Inl KeyError
      | Some d \<Rightarrow> if d = infty then Inr (False, total') else add_legs infty dm rest (total' + d))"

text \<open>The outer loop, with the state \<open>(best_order, min_distance)\<close>.\<close>

fun try_orders ::
  "('r::{plus, zero, ord}) \<Rightarrow> (nat \<times> nat \<rightharpoonup> 'r) \<Rightarrow> nat list list \<Rightarrow> nat list option \<times> 'r
     \<Rightarrow> py_error + nat list option \<times> 'r"
where
  "try_orders infty dm [] st = Inr st"
| "try_orders infty dm (perm # perms) (best_order, min_distance) =
     (let current = 0 # perm in
      case add_legs infty dm (zip current (tl current)) 0 of
        Inl e \<Rightarrow> Inl e
      | Inr (valid, total') \<Rightarrow>
          if valid \<and> total' < min_distance
          then try_orders infty dm perms (Some current, total')
          else try_orders infty dm perms (best_order, min_distance))"

definition solve_tsp ::
  "('r::{plus, zero, ord}) \<Rightarrow> (nat \<times> nat \<rightharpoonup> 'r) \<Rightarrow> nat \<Rightarrow> py_error + nat list option \<times> 'r"
where
  "solve_tsp infty dm n = try_orders infty dm (permutations [1..<n]) (None, infty)"

section \<open>Path assembly (lines 113--128)\<close>

definition get_item :: "'a list \<Rightarrow> nat \<Rightarrow> py_error + 'a" where
  "get_item xs i = (if i < length xs then Inr (xs ! i) else Inl IndexError)"

text \<open>The loop over consecutive entries \<open>a, b\<close> of \<open>best_order\<close>, extending \<open>full_path\<close>.\<close>

fun reconstruct ::
  "'r networkx \<Rightarrow> 'r graph \<Rightarrow> 'r point list \<Rightarrow> (nat \<times> nat) list \<Rightarrow> 'r point list
     \<Rightarrow> py_error + 'r point list"
where
  "reconstruct nx G poi_coords [] full_path = Inr full_path"
| "reconstruct nx G poi_coords ((a, b) # rest) full_path =
     (case get_item poi_coords a of
        Inl e \<Rightarrow> Inl e
      | Inr pa \<Rightarrow>
          (case get_item poi_coords b of
             Inl e \<Rightarrow> Inl e
           | Inr pb \<Rightarrow>
               (case shortest_path nx G pa pb of
                  None \<Rightarrow> Inl NetworkXNoPath
                | Some path \<Rightarrow> reconstruct nx G poi_coords rest (full_path @ path))))"

text \<open>The loop \<open>for p in full_path\<close> that appends \<open>p\<close> unless it equals \<open>cleaned_path[-1]\<close>.\<close>

definition cleaned_path :: "'a list \<Rightarrow> 'a list" where
  "cleaned_path full_path =
     foldl (\<lambda>cleaned p. if cleaned = [] \<or> p \<noteq> last cleaned then cleaned @ [p] else cleaned)
       [] full_path"

text \<open>
  \<open>if not best_order\<close> holds for \<open>None\<close> and for an empty list; that branch prints the
  message and the script ends normally.
\<close>

definition report ::
  "'r networkx \<Rightarrow> 'r graph \<Rightarrow> 'r point list \<Rightarrow> nat list option \<Rightarrow> py_error + 'r outcome"
where
  "report nx G poi_coords best_order =
     (case best_order of
        None \<Rightarrow> Inr NoValidPath
      | Some order \<Rightarrow>
          if order = [] then Inr NoValidPath
          else (case reconstruct nx G poi_coords (zip order (tl order)) [] of
                  Inl e \<Rightarrow> Inl e
                | Inr full_path \<Rightarrow> Inr (OptimalPath (cleaned_path full_path))))"

section \<open>The script\<close>

text \<open>Lines 76--128: everything after the graph is built.\<close>

definition plan_route ::
  "('r::{plus, zero, ord}) networkx \<Rightarrow> 'r \<Rightarrow> 'r graph \<Rightarrow> 'r point list \<Rightarrow> py_error + 'r outcome"
where
  "plan_route nx infty G poi_coords =
     (case solve_tsp infty (distance_matrix nx infty G poi_coords) (length poi_coords) of
        Inl e \<Rightarrow> Inl e
      | Inr (best_order, min_distance) \<Rightarrow> report nx G poi_coords best_order)"

definition run ::
  "('r::{plus, minus, zero, ord}) geometry_library \<Rightarrow> 'r networkx \<Rightarrow> 'r
     \<Rightarrow> 'r feature list \<Rightarrow> 'r feature list
     \<Rightarrow> py_error + 'r outcome"
where
  "run geo nx infty pois_data boundaries_data =
     (case parse pois_data boundaries_data of
        Inl e \<Rightarrow> Inl e
      | Inr (pois, boundaries) \<Rightarrow>
          plan_route nx infty (build_graph geo (collect_nodes pois boundaries) boundaries) pois)"

section \<open>Costs of tours, as the specification words them\<close>

text \<open>
  A tour is a list of indices; its legs are its consecutive pairs.  Its cost is the sum
  of the matrix entries of its legs, added from \<open>0\<close> in order; it is valid when every leg
  has an entry other than the unreachable sentinel.
\<close>

definition legs :: "nat list \<Rightarrow> (nat \<times> nat) list" where
  "legs tour = zip tour (tl tour)"

fun sum_legs :: "(nat \<times> nat \<rightharpoonup> ('r::plus)) \<Rightarrow> (nat \<times> nat) list \<Rightarrow> 'r \<Rightarrow> 'r option" where
  "sum_legs dm [] acc = Some acc"
| "sum_legs dm (k # ks) acc =
     (case dm k of None \<Rightarrow> None | Some d \<Rightarrow> sum_legs dm ks (acc + d))"

definition tour_cost :: "(nat \<times> nat \<rightharpoonup> ('r::{plus, zero})) \<Rightarrow> nat list \<Rightarrow> 'r option" where
  "tour_cost dm tour = sum_legs dm (legs tour) 0"

definition finite_leg :: "'r \<Rightarrow> (nat \<times> nat \<rightharpoonup> 'r) \<Rightarrow> nat \<times> nat \<Rightarrow> bool" where
  "finite_leg infty dm k = (case dm k of None \<Rightarrow> False | Some d \<Rightarrow> d \<noteq> infty)"

definition all_legs_finite :: "'r \<Rightarrow> (nat \<times> nat \<rightharpoonup> 'r) \<Rightarrow> nat list \<Rightarrow> bool" where
  "all_legs_finite infty dm tour = list_all (finite_leg infty dm) (legs tour)"

definition is_permutation_of :: "'a list \<Rightarrow> 'a list \<Rightarrow> bool" where
  "is_permutation_of p xs = (mset p = mset xs)"

section \<open>The obstacle list comes from the last POI feature\<close>

lemma parse_pois_feature:
  "snd (parse_pois fs (pois, feature)) = (if fs = [] then feature else Some (last fs))"
  by (induction fs arbitrary: pois feature) (auto split: geometry.splits)

lemma parse_pois_points:
  "fst (parse_pois fs (pois, feature)) =
     pois @ concat (map (\<lambda>f. case geometry f of Point p \<Rightarrow> [p] | _ \<Rightarrow> []) fs)"
  by (induction fs arbitrary: pois feature) (auto split: geometry.splits)

lemma parse_boundaries_Some:
  "parse_boundaries (Some f) bs acc =
     Inr (acc @ (case geometry f of Polygon g \<Rightarrow> replicate (length bs) g | _ \<Rightarrow> []))"
proof (induction bs arbitrary: acc)
  case Nil
  show ?case by (simp split: geometry.splits)
next
  case (Cons b bs)
  show ?case by (simp add: Cons.IH replicate_app_Cons_same split: geometry.splits)
qed

text \<open>
  With no POI feature at all the variable \<open>feature\<close> is unbound when the boundaries loop
  reads it.
\<close>

lemma parse_no_pois:
  "parse [] [] = Inr ([], [])" and "parse [] (b # bs) = Inl NameError"
  by (simp_all add: parse_def)

text \<open>
  Claim C1.  Whenever the POI input is not empty, parsing gives the coordinates of the
  point features as waypoints, and the obstacle list used afterwards is the geometry of
  the last POI feature, once per boundary feature, when that geometry is a polygon, and
  empty otherwise (so a last POI that is a point gives zero obstacles).  Nothing of the
  boundaries input but its length reaches the result.
\<close>

theorem boundaries_from_last_poi:
  assumes "pois_data \<noteq> []"
  shows "parse pois_data boundaries_data =
           Inr (concat (map (\<lambda>f. case geometry f of Point p \<Rightarrow> [p] | _ \<Rightarrow> []) pois_data),
                case geometry (last pois_data) of
                  Polygon g \<Rightarrow> replicate (length boundaries_data) g
                | _ \<Rightarrow> [])"
proof -
  obtain pois feature where p: "parse_pois pois_data ([], None) = (pois, feature)"
    by (cases "parse_pois pois_data ([], None)")
  have "feature = Some (last pois_data)"
    using parse_pois_feature [of pois_data "[]" None] assms p by simp
  moreover have "pois = concat (map (\<lambda>f. case geometry f of Point p \<Rightarrow> [p] | _ \<Rightarrow> []) pois_data)"
    using parse_pois_points [of pois_data "[]" None] p by simp
  ultimately show ?thesis
    by (simp add: parse_def p parse_boundaries_Some)
qed

text \<open>
  The last POI feature is a polygon and the boundaries input has two features: the
  obstacle list is that polygon twice, and nothing of the boundaries input.
\<close>

theorem boundaries_from_last_poi_witness:
  "[\<lparr>geometry = Point (0, 0)\<rparr>,
    \<lparr>geometry = Polygon \<lparr>exterior = [(1, 1), (2, 1), (2, 2), (1, 1)], interiors = []\<rparr>\<rparr>]
     \<noteq> ([] :: enat feature list)
   \<and> parse
         [\<lparr>geometry = Point (0, 0)\<rparr>,
          \<lparr>geometry = Polygon \<lparr>exterior = [(1, 1), (2, 1), (2, 2), (1, 1)], interiors = []\<rparr>\<rparr>]
         [\<lparr>geometry = Polygon \<lparr>exterior = [(5, 5), (6, 5), (6, 6), (5, 5)], interiors = []\<rparr>\<rparr>,
          \<lparr>geometry = OtherGeometry\<rparr>]
       = Inr ([(0, 0)],
              [\<lparr>exterior = [(1, 1), (2, 1), (2, 2), (1, 1)], interiors = []\<rparr>,
               \<lparr>exterior = [(1, 1), (2, 1), (2, 2), (1, 1)], interiors = []\<rparr>
               :: enat polygon])"
  using boundaries_from_last_poi
    [of "[\<lparr>geometry = Point (0, 0)\<rparr>,
          \<lparr>geometry = Polygon \<lparr>exterior = [(1, 1), (2, 1), (2, 2), (1, 1)], interiors = []\<rparr>\<rparr>]
          :: enat feature list"
        "[\<lparr>geometry = Polygon \<lparr>exterior = [(5, 5), (6, 5), (6, 6), (5, 5)], interiors = []\<rparr>\<rparr>,
          \<lparr>geometry = OtherGeometry\<rparr>]"]
  by (simp add: numeral_2_eq_2)

section \<open>Auxiliary facts: deduplication and permutations\<close>


lemma remdups_adj_snoc:
  "remdups_adj (xs @ [x]) = (if xs = [] \<or> x \<noteq> last xs then remdups_adj xs @ [x] else remdups_adj xs)"
proof (cases xs rule: rev_cases)
  case Nil
  then show ?thesis by simp
next
  case (snoc ys y)
  then show ?thesis by (simp add: remdups_adj_append_two)
qed

lemma cleaned_path_snoc:
  "cleaned_path (xs @ [x]) =
     (if cleaned_path xs = [] \<or> x \<noteq> last (cleaned_path xs) then cleaned_path xs @ [x]
      else cleaned_path xs)"
  by (simp add: cleaned_path_def)

lemma cleaned_path_remdups_adj: "cleaned_path xs = remdups_adj xs"
proof (induction xs rule: rev_induct)
  case Nil
  show ?case by (simp add: cleaned_path_def)
next
  case (snoc x xs)
  show ?case
    by (simp only: cleaned_path_snoc remdups_adj_snoc snoc.IH remdups_adj_Nil_iff last_remdups_adj)
qed

lemma collect_nodes_set:
  "set (collect_nodes pois boundaries) =
     set pois \<union> (\<Union>b \<in> set boundaries. set (exterior b) \<union> (\<Union>r \<in> set (interiors b). set r))"
  by (auto simp: collect_nodes_def)

lemma collect_nodes_distinct: "distinct (collect_nodes pois boundaries)"
  by (simp add: collect_nodes_def)

lemma remove_nth_length: "i < length xs \<Longrightarrow> length (take i xs @ drop (Suc i) xs) < length xs"
  by simp

lemma permutations_Cons_unfold:
  "xs \<noteq> [] \<Longrightarrow> permutations xs =
     concat (map (\<lambda>i. map ((#) (xs ! i)) (permutations (take i xs @ drop (Suc i) xs))) [0..<length xs])"
  by (cases xs) (simp_all del: upt_Suc)

lemma mset_remove_nth:
  "i < length xs \<Longrightarrow> mset (take i xs @ drop (Suc i) xs) = mset xs - {#xs ! i#}"
  by (metis add_mset_remove_trivial id_take_nth_drop mset.simps(2) mset_append union_mset_add_mset_right)

lemma set_permutations: "set (permutations xs) = {ys. mset ys = mset xs}"
proof (induction "length xs" arbitrary: xs rule: less_induct)
  case less
  show ?case
  proof (cases "xs = []")
    case True
    then show ?thesis by simp
  next
    case False
    have IH: "\<And>i. i < length xs \<Longrightarrow>
        set (permutations (take i xs @ drop (Suc i) xs)) = {ys. mset ys = mset xs - {#xs ! i#}}"
    proof -
      fix i assume i: "i < length xs"
      have "set (permutations (take i xs @ drop (Suc i) xs)) =
          {ys. mset ys = mset (take i xs @ drop (Suc i) xs)}"
        using i by (intro less) simp
      then show "set (permutations (take i xs @ drop (Suc i) xs)) = {ys. mset ys = mset xs - {#xs ! i#}}"
        by (simp only: mset_remove_nth [OF i])
    qed
    show ?thesis
    proof (intro set_eqI iffI)
      fix ys assume "ys \<in> set (permutations xs)"
      then obtain i zs where i: "i < length xs" and ys: "ys = xs ! i # zs"
        and zs: "zs \<in> set (permutations (take i xs @ drop (Suc i) xs))"
        by (auto simp: permutations_Cons_unfold [OF False])
      from zs IH [OF i] have "mset zs = mset xs - {#xs ! i#}" by simp
      with i ys show "ys \<in> {ys. mset ys = mset xs}" by simp
    next
      fix ys assume "ys \<in> {ys. mset ys = mset xs}"
      then have m: "mset ys = mset xs" by simp
      with False obtain y zs where ys: "ys = y # zs" by (cases ys) auto
      with m have "y \<in> set xs" by (metis list.set_intros(1) mset_eq_setD)
      then obtain i where i: "i < length xs" and y: "xs ! i = y" by (auto simp: in_set_conv_nth)
      from m ys have "mset zs = mset xs - {#y#}" by (metis add_mset_remove_trivial mset.simps(2))
      with IH [OF i] y have "zs \<in> set (permutations (take i xs @ drop (Suc i) xs))" by simp
      with i y ys show "ys \<in> set (permutations xs)"
        by (auto simp: permutations_Cons_unfold [OF False])
    qed
  qed
qed

section \<open>Auxiliary facts: the search loops\<close>

lemma add_legs_valid_iff:
  "add_legs infty dm ks t = Inr (True, t') \<longleftrightarrow>
     list_all (finite_leg infty dm) ks \<and> sum_legs dm ks t = Some t'"
  by (induction ks arbitrary: t) (auto simp: finite_leg_def split: option.splits if_splits)

lemma add_legs_keys:
  "\<forall>k \<in> set ks. k \<in> dom dm \<Longrightarrow> \<exists>v r. add_legs infty dm ks t = Inr (v, r)"
  by (induction ks arbitrary: t) (auto split: option.splits)

lemma add_legs_invalid:
  assumes "\<forall>k \<in> set ks. k \<in> dom dm" and "\<not> list_all (finite_leg infty dm) ks"
  shows "\<exists>r. add_legs infty dm ks t = Inr (False, r)"
proof -
  from add_legs_keys [OF assms(1)] obtain v r where vr: "add_legs infty dm ks t = Inr (v, r)"
    by blast
  with assms(2) have "\<not> v" using add_legs_valid_iff [of infty dm ks t r] by auto
  with vr show ?thesis by auto
qed

text \<open>The state of the search after the loop, whatever state it started from.\<close>

lemma try_orders_result:
  fixes m0 :: "'r::{plus, zero, linorder}"
  assumes "try_orders infty dm perms (b0, m0) = Inr (b, m)"
  shows "(b = b0 \<and> m = m0 \<and>
            (\<forall>q \<in> set perms. \<forall>t. add_legs infty dm (legs (0 # q)) 0 = Inr (True, t) \<longrightarrow> m0 \<le> t))
       \<or> (\<exists>xs p ys. perms = xs @ p # ys \<and> b = Some (0 # p) \<and> m < m0 \<and>
            add_legs infty dm (legs (0 # p)) 0 = Inr (True, m) \<and>
            (\<forall>q \<in> set xs. \<forall>t. add_legs infty dm (legs (0 # q)) 0 = Inr (True, t) \<longrightarrow> m < t) \<and>
            (\<forall>q \<in> set ys. \<forall>t. add_legs infty dm (legs (0 # q)) 0 = Inr (True, t) \<longrightarrow> m \<le> t))"
  using assms
proof (induction perms arbitrary: b0 m0)
  case Nil
  then show ?case by simp
next
  case (Cons p perms)
  from Cons.prems obtain v t where vt: "add_legs infty dm (legs (0 # p)) 0 = Inr (v, t)"
    by (cases "add_legs infty dm (legs (0 # p)) 0") (auto simp: legs_def)
  show ?case
  proof (cases "v \<and> t < m0")
    case True
    with Cons.prems vt have rec: "try_orders infty dm perms (Some (0 # p), t) = Inr (b, m)"
      by (simp add: legs_def)
    from Cons.IH [OF rec] show ?thesis
    proof (elim disjE exE conjE)
      assume "b = Some (0 # p)" "m = t"
        and rest: "\<forall>q \<in> set perms. \<forall>t'. add_legs infty dm (legs (0 # q)) 0 = Inr (True, t') \<longrightarrow> t \<le> t'"
      with True vt have "p # perms = [] @ p # perms \<and> b = Some (0 # p) \<and> m < m0 \<and>
            add_legs infty dm (legs (0 # p)) 0 = Inr (True, m) \<and>
            (\<forall>q \<in> set []. \<forall>t. add_legs infty dm (legs (0 # q)) 0 = Inr (True, t) \<longrightarrow> m < t) \<and>
            (\<forall>q \<in> set perms. \<forall>t. add_legs infty dm (legs (0 # q)) 0 = Inr (True, t) \<longrightarrow> m \<le> t)"
        by simp
      then show ?thesis by blast
    next
      fix xs p' ys
      assume split: "perms = xs @ p' # ys" and b: "b = Some (0 # p')" and lt: "m < t"
        and at: "add_legs infty dm (legs (0 # p')) 0 = Inr (True, m)"
        and before: "\<forall>q \<in> set xs. \<forall>t. add_legs infty dm (legs (0 # q)) 0 = Inr (True, t) \<longrightarrow> m < t"
        and after: "\<forall>q \<in> set ys. \<forall>t. add_legs infty dm (legs (0 # q)) 0 = Inr (True, t) \<longrightarrow> m \<le> t"
      from lt True have "m < m0" by auto
      moreover have "\<forall>q \<in> set (p # xs). \<forall>t. add_legs infty dm (legs (0 # q)) 0 = Inr (True, t) \<longrightarrow> m < t"
        using before vt lt by auto
      moreover have "p # perms = (p # xs) @ p' # ys" using split by simp
      ultimately show ?thesis using b at after by blast
    qed
  next
    case False
    with Cons.prems vt have rec: "try_orders infty dm perms (b0, m0) = Inr (b, m)"
      by (auto simp: legs_def)
    from False vt have here: "\<forall>t'. add_legs infty dm (legs (0 # p)) 0 = Inr (True, t') \<longrightarrow> m0 \<le> t'"
      by auto
    from Cons.IH [OF rec] show ?thesis
    proof (elim disjE exE conjE)
      assume "b = b0" "m = m0"
        and "\<forall>q \<in> set perms. \<forall>t. add_legs infty dm (legs (0 # q)) 0 = Inr (True, t) \<longrightarrow> m0 \<le> t"
      with here show ?thesis by auto
    next
      fix xs p' ys
      assume split: "perms = xs @ p' # ys" and b: "b = Some (0 # p')" and lt: "m < m0"
        and at: "add_legs infty dm (legs (0 # p')) 0 = Inr (True, m)"
        and before: "\<forall>q \<in> set xs. \<forall>t. add_legs infty dm (legs (0 # q)) 0 = Inr (True, t) \<longrightarrow> m < t"
        and after: "\<forall>q \<in> set ys. \<forall>t. add_legs infty dm (legs (0 # q)) 0 = Inr (True, t) \<longrightarrow> m \<le> t"
      have "\<forall>q \<in> set (p # xs). \<forall>t. add_legs infty dm (legs (0 # q)) 0 = Inr (True, t) \<longrightarrow> m < t"
        using before here lt by auto
      moreover have "p # perms = (p # xs) @ p' # ys" using split by simp
      ultimately show ?thesis using b at after lt by blast
    qed
  qed
qed

lemma try_orders_none_valid:
  assumes "\<forall>q \<in> set perms. \<exists>r. add_legs infty dm (legs (0 # q)) 0 = Inr (False, r)"
  shows "try_orders infty dm perms st = Inr st"
  using assms
proof (induction perms)
  case Nil
  show ?case by simp
next
  case (Cons p perms)
  then obtain r where "add_legs infty dm (legs (0 # p)) 0 = Inr (False, r)" by auto
  with Cons show ?case by (cases st) (simp add: legs_def)
qed

section \<open>The search returns the optimum\<close>

lemma solve_tsp_selected:
  fixes dm :: "nat \<times> nat \<rightharpoonup> 'r::{plus, zero, linorder}"
  assumes "solve_tsp infty dm n = Inr (Some order, cost)"
  shows "\<exists>xs p ys. permutations [1..<n] = xs @ p # ys \<and> order = 0 # p \<and>
            add_legs infty dm (legs (0 # p)) 0 = Inr (True, cost) \<and>
            (\<forall>q \<in> set xs. \<forall>t. add_legs infty dm (legs (0 # q)) 0 = Inr (True, t) \<longrightarrow> cost < t) \<and>
            (\<forall>q \<in> set ys. \<forall>t. add_legs infty dm (legs (0 # q)) 0 = Inr (True, t) \<longrightarrow> cost \<le> t)"
  using try_orders_result [OF assms [unfolded solve_tsp_def]] by auto

lemma add_legs_tour:
  "add_legs infty dm (legs tour) 0 = Inr (True, t) \<longleftrightarrow>
     all_legs_finite infty dm tour \<and> tour_cost dm tour = Some t"
  by (simp add: add_legs_valid_iff all_legs_finite_def tour_cost_def)

lemma permutations_upt_3: "permutations [1..<3] = [[1, 2], [2, 1]]"
  by code_simp

text \<open>
  Claim C2.  When the search returns an order and its cost, the order is the origin
  followed by a permutation of \<open>1..n-1\<close> whose legs are all finite and whose cost is the
  one returned, and that cost is at most the cost of every permutation of \<open>1..n-1\<close>
  (after the origin) whose legs are all finite.
\<close>

theorem solve_tsp_optimal:
  fixes dm :: "nat \<times> nat \<rightharpoonup> 'r::{plus, zero, linorder}"
  assumes "solve_tsp infty dm n = Inr (Some order, cost)"
  shows "(\<exists>p. is_permutation_of p [1..<n] \<and> order = 0 # p \<and>
              all_legs_finite infty dm order \<and> tour_cost dm order = Some cost)
       \<and> (\<forall>q c. is_permutation_of q [1..<n] \<and> all_legs_finite infty dm (0 # q) \<and>
              tour_cost dm (0 # q) = Some c \<longrightarrow> cost \<le> c)"
proof -
  from solve_tsp_selected [OF assms] obtain xs p ys
    where split: "permutations [1..<n] = xs @ p # ys" and order: "order = 0 # p"
      and at: "add_legs infty dm (legs (0 # p)) 0 = Inr (True, cost)"
      and before: "\<forall>q \<in> set xs. \<forall>t. add_legs infty dm (legs (0 # q)) 0 = Inr (True, t) \<longrightarrow> cost < t"
      and after: "\<forall>q \<in> set ys. \<forall>t. add_legs infty dm (legs (0 # q)) 0 = Inr (True, t) \<longrightarrow> cost \<le> t"
    by blast
  have "p \<in> set (permutations [1..<n])" using split by simp
  then have "is_permutation_of p [1..<n]" by (simp add: set_permutations is_permutation_of_def)
  with order at have first: "\<exists>p. is_permutation_of p [1..<n] \<and> order = 0 # p \<and>
      all_legs_finite infty dm order \<and> tour_cost dm order = Some cost"
    by (auto simp: add_legs_tour)
  have second: "cost \<le> c"
    if q: "is_permutation_of q [1..<n]" "all_legs_finite infty dm (0 # q)" "tour_cost dm (0 # q) = Some c"
    for q c
  proof -
    from q have ev: "add_legs infty dm (legs (0 # q)) 0 = Inr (True, c)" by (simp add: add_legs_tour)
    from q(1) have "q \<in> set (xs @ p # ys)"
      unfolding split [symmetric] by (simp add: set_permutations is_permutation_of_def)
    then consider "q \<in> set xs" | "q = p" | "q \<in> set ys" by auto
    then show ?thesis
    proof cases
      case 1 with before ev show ?thesis by fastforce
    next
      case 2 with at ev show ?thesis by simp
    next
      case 3 with after ev show ?thesis by fastforce
    qed
  qed
  from first second show ?thesis by blast
qed

theorem solve_tsp_optimal_witness:
  "solve_tsp \<infinity>
       [(0, 0) \<mapsto> 0, (0, 1) \<mapsto> 5, (0, 2) \<mapsto> 2,
        (1, 0) \<mapsto> 5, (1, 1) \<mapsto> 0, (1, 2) \<mapsto> 3,
        (2, 0) \<mapsto> 2, (2, 1) \<mapsto> 4, (2, 2) \<mapsto> (0 :: enat)] 3
     = Inr (Some [0, 2, 1], 6)
   \<and> is_permutation_of [1, 2] [1..<3]
   \<and> all_legs_finite \<infinity>
       [(0, 0) \<mapsto> 0, (0, 1) \<mapsto> 5, (0, 2) \<mapsto> 2,
        (1, 0) \<mapsto> 5, (1, 1) \<mapsto> 0, (1, 2) \<mapsto> 3,
        (2, 0) \<mapsto> 2, (2, 1) \<mapsto> 4, (2, 2) \<mapsto> (0 :: enat)] [0, 1, 2]
   \<and> tour_cost
       [(0, 0) \<mapsto> 0, (0, 1) \<mapsto> 5, (0, 2) \<mapsto> 2,
        (1, 0) \<mapsto> 5, (1, 1) \<mapsto> 0, (1, 2) \<mapsto> 3,
        (2, 0) \<mapsto> 2, (2, 1) \<mapsto> 4, (2, 2) \<mapsto> (0 :: enat)] [0, 1, 2] = Some 8
   \<and> (6 :: enat) \<le> 8"
proof -
  let ?dm = "[(0, 0) \<mapsto> 0, (0, 1) \<mapsto> 5, (0, 2) \<mapsto> 2,
        (1, 0) \<mapsto> 5, (1, 1) \<mapsto> 0, (1, 2) \<mapsto> 3,
        (2, 0) \<mapsto> 2, (2, 1) \<mapsto> 4, (2, 2) \<mapsto> (0 :: enat)] :: nat \<times> nat \<rightharpoonup> enat"
  have s: "solve_tsp \<infinity> ?dm 3 = Inr (Some [0, 2, 1], 6)"
    unfolding solve_tsp_def permutations_upt_3 by (simp add: numeral_eq_enat zero_enat_def)
  have p: "is_permutation_of [1, 2] [1..<3 :: nat]"
    by (simp add: is_permutation_of_def upt_rec numeral_3_eq_3)
  have f: "all_legs_finite \<infinity> ?dm [0, 1, 2]"
    by (simp add: all_legs_finite_def legs_def finite_leg_def)
  have c: "tour_cost ?dm [0, 1, 2] = Some 8"
    by (simp add: tour_cost_def legs_def numeral_eq_enat zero_enat_def)
  from solve_tsp_optimal [OF s] p f c have "(6 :: enat) \<le> 8" by blast
  with s p f c show ?thesis by blast
qed

section \<open>Auxiliary facts: enumeration order and matrix entries\<close>

lemma sorted_wrt_concat_upt:
  assumes "\<And>i. i < n \<Longrightarrow> sorted_wrt P (f i)"
    and "\<And>i j x y. i < j \<Longrightarrow> j < n \<Longrightarrow> x \<in> set (f i) \<Longrightarrow> y \<in> set (f j) \<Longrightarrow> P x y"
  shows "sorted_wrt P (concat (map f [0..<n]))"
  using assms
proof (induction n)
  case 0
  show ?case by simp
next
  case (Suc n)
  have "sorted_wrt P (concat (map f [0..<n]))"
    by (rule Suc.IH) (auto intro: Suc.prems)
  moreover have "sorted_wrt P (f n)" by (rule Suc.prems) simp
  moreover have "P x y" if "x \<in> set (concat (map f [0..<n]))" "y \<in> set (f n)" for x y
  proof -
    from that(1) obtain i where "i < n" "x \<in> set (f i)" by auto
    with that(2) show ?thesis by (intro Suc.prems(2) [of i n]) auto
  qed
  ultimately show ?case by (simp add: sorted_wrt_append)
qed

lemma sorted_wrt_remove_nth:
  assumes "sorted_wrt P xs" and "i < length xs"
  shows "sorted_wrt P (take i xs @ drop (Suc i) xs)"
proof -
  have "sorted_wrt P (take i xs @ xs ! i # drop (Suc i) xs)"
    using assms by (simp add: id_take_nth_drop [symmetric])
  then show ?thesis by (auto simp: sorted_wrt_append)
qed

lemma permutations_sorted:
  fixes xs :: "'a::linorder list"
  assumes "sorted_wrt (<) xs"
  shows "sorted_wrt (<) (permutations xs)"
  using assms
proof (induction "length xs" arbitrary: xs rule: less_induct)
  case less
  show ?case
  proof (cases "xs = []")
    case True
    then show ?thesis by simp
  next
    case False
    let ?block = "\<lambda>i. map ((#) (xs ! i)) (permutations (take i xs @ drop (Suc i) xs))"
    have "sorted_wrt (<) (concat (map ?block [0..<length xs]))"
    proof (rule sorted_wrt_concat_upt)
      fix i assume i: "i < length xs"
      have "sorted_wrt (<) (permutations (take i xs @ drop (Suc i) xs))"
        using i less.prems by (intro less.hyps sorted_wrt_remove_nth) simp_all
      then show "sorted_wrt (<) (?block i)" by (simp add: sorted_wrt_map)
    next
      fix i j x y
      assume "i < j" "j < length xs" "x \<in> set (?block i)" "y \<in> set (?block j)"
      moreover from this less.prems have "xs ! i < xs ! j" by (simp add: sorted_wrt_nth_less)
      ultimately show "x < y" by auto
    qed
    then show ?thesis by (simp only: permutations_Cons_unfold [OF False])
  qed
qed

lemma foldl_update_lookup:
  "foldl (\<lambda>dm j. dm((i, j) \<mapsto> e j)) dm [0..<m] (a, b) =
     (if a = i \<and> b < m then Some (e b) else dm (a, b))"
  by (induction m) (auto simp: less_Suc_eq)

lemma distance_matrix_row_eq:
  "distance_matrix_row nx infty G poi_coords dm i =
     foldl (\<lambda>dm j. dm((i, j) \<mapsto> matrix_entry nx infty G poi_coords i j)) dm [0..<length poi_coords]"
proof -
  have "(\<lambda>dm j.
         if i = j then dm((i, j) \<mapsto> 0)
         else (case shortest_path_length nx G (poi_coords ! i) (poi_coords ! j) of
                 Some d \<Rightarrow> dm((i, j) \<mapsto> d)
               | None \<Rightarrow> dm((i, j) \<mapsto> infty)))
      = (\<lambda>dm j. dm((i, j) \<mapsto> matrix_entry nx infty G poi_coords i j))"
    by (intro ext) (simp add: matrix_entry_def split: option.splits)
  then show ?thesis by (simp only: distance_matrix_row_def)
qed

lemma distance_matrix_row_lookup:
  "distance_matrix_row nx infty G poi_coords dm i (a, b) =
     (if a = i \<and> b < length poi_coords then Some (matrix_entry nx infty G poi_coords i b)
      else dm (a, b))"
  by (simp only: distance_matrix_row_eq foldl_update_lookup)

lemma distance_matrix_rows_lookup:
  "foldl (distance_matrix_row nx infty G poi_coords) dm [0..<m] (a, b) =
     (if a < m \<and> b < length poi_coords then Some (matrix_entry nx infty G poi_coords a b)
      else dm (a, b))"
proof (induction m)
  case 0
  show ?case by simp
next
  case (Suc m)
  show ?case
    by (simp add: distance_matrix_row_lookup Suc.IH less_Suc_eq)
qed

lemma distance_matrix_lookup:
  "distance_matrix nx infty G poi_coords (a, b) =
     (if a < length poi_coords \<and> b < length poi_coords
      then Some (matrix_entry nx infty G poi_coords a b) else None)"
  by (simp add: distance_matrix_def distance_matrix_rows_lookup)

section \<open>Auxiliary facts: tours without a finite leg\<close>

lemma legs_members: "(a, b) \<in> set (legs tour) \<Longrightarrow> a \<in> set tour \<and> b \<in> set tour"
  by (cases tour) (auto simp: legs_def dest: set_zip_leftD set_zip_rightD)

lemma permutation_of_upt:
  assumes "is_permutation_of p [1..<n]"
  shows "set p = {1..<n}" and "distinct p" and "length p = n - 1"
proof -
  from assms have m: "mset p = mset [1..<n]" by (simp add: is_permutation_of_def)
  from mset_eq_setD [OF m] show "set p = {1..<n}" by simp
  from mset_eq_imp_distinct_iff [OF m] show "distinct p" by simp
  from mset_eq_length [OF m] show "length p = n - 1" by simp
qed

lemma tour_keys:
  assumes "is_permutation_of p [1..<n]" and "(a, b) \<in> set (legs (0 # p))"
  shows "a < n \<and> b < n"
proof -
  from legs_members [OF assms(2)] have ab: "a \<in> set (0 # p)" "b \<in> set (0 # p)" by simp_all
  from assms(2) have "p \<noteq> []" by (auto simp: legs_def)
  with permutation_of_upt(1) [OF assms(1)] have "0 < n" by (cases n) auto
  with ab permutation_of_upt(1) [OF assms(1)] show ?thesis by auto
qed

lemma tour_keys_dom:
  assumes "is_permutation_of p [1..<length poi_coords]"
  shows "\<forall>k \<in> set (legs (0 # p)). k \<in> dom (distance_matrix nx infty G poi_coords)"
proof
  fix k assume k: "k \<in> set (legs (0 # p))"
  obtain a b where ab: "k = (a, b)" by (cases k)
  with tour_keys [OF assms] k have "a < length poi_coords \<and> b < length poi_coords" by simp
  with ab show "k \<in> dom (distance_matrix nx infty G poi_coords)"
    by (simp add: dom_def distance_matrix_lookup)
qed

lemma solve_tsp_no_feasible:
  fixes infty :: "'r::{plus, zero, linorder}"
  assumes "\<And>p. is_permutation_of p [1..<length poi_coords] \<Longrightarrow>
             \<not> all_legs_finite infty (distance_matrix nx infty G poi_coords) (0 # p)"
  shows "solve_tsp infty (distance_matrix nx infty G poi_coords) (length poi_coords) = Inr (None, infty)"
  unfolding solve_tsp_def
proof (rule try_orders_none_valid, rule ballI)
  fix q assume "q \<in> set (permutations [1..<length poi_coords])"
  then have q: "is_permutation_of q [1..<length poi_coords]"
    by (simp add: set_permutations is_permutation_of_def)
  from assms [OF q] have "\<not> list_all (finite_leg infty (distance_matrix nx infty G poi_coords)) (legs (0 # q))"
    by (simp add: all_legs_finite_def)
  with tour_keys_dom [OF q]
  show "\<exists>r. add_legs infty (distance_matrix nx infty G poi_coords) (legs (0 # q)) 0 = Inr (False, r)"
    by (rule add_legs_invalid)
qed

lemma legs_Cons_Cons: "legs (a # y # ys) = (a, y) # legs (y # ys)"
  by (simp add: legs_def)

lemma legs_adjacent: "(x, k) \<in> set (legs (us @ x # k # bs))"
proof (induction us)
  case Nil
  show ?case by (simp add: legs_Cons_Cons)
next
  case (Cons u us)
  then show ?case by (cases us) (simp_all add: legs_Cons_Cons)
qed

lemma in_tour_has_leg:
  assumes "k \<in> set p" and "distinct (t # p)"
  shows "\<exists>x. x \<noteq> k \<and> (x, k) \<in> set (legs (t # p))"
proof -
  from assms(1) obtain as bs where p: "p = as @ k # bs" by (auto simp: in_set_conv_decomp)
  show ?thesis
  proof (cases as rule: rev_cases)
    case Nil
    with p assms(2) have "t \<noteq> k" by auto
    moreover from Nil p have "(t, k) \<in> set (legs (t # p))" by (simp add: legs_def)
    ultimately show ?thesis by blast
  next
    case (snoc as' x)
    with p assms(2) have "x \<noteq> k" by auto
    moreover have "(x, k) \<in> set (legs (t # p))"
      using legs_adjacent [of x k "t # as'" bs] snoc p by simp
    ultimately show ?thesis by blast
  qed
qed

lemma cut_off_waypoint_no_tour:
  fixes infty :: "'r::{plus, zero, linorder}"
  assumes n: "2 \<le> length poi_coords" and k: "k < length poi_coords"
    and cut: "\<And>j. j < length poi_coords \<Longrightarrow> j \<noteq> k \<Longrightarrow>
           shortest_path_length nx G (poi_coords ! k) (poi_coords ! j) = None \<and>
           shortest_path_length nx G (poi_coords ! j) (poi_coords ! k) = None"
    and p: "is_permutation_of p [1..<length poi_coords]"
  shows "\<not> all_legs_finite infty (distance_matrix nx infty G poi_coords) (0 # p)"
proof -
  let ?n = "length poi_coords"
  let ?dm = "distance_matrix nx infty G poi_coords"
  note facts = permutation_of_upt [OF p]
  have d: "distinct (0 # p)" using facts by simp
  have "\<exists>a b. (a, b) \<in> set (legs (0 # p)) \<and> a \<noteq> b \<and> (a = k \<or> b = k)"
  proof (cases "k = 0")
    case True
    from facts(3) n obtain y ys where ys: "p = y # ys" by (cases p) auto
    then have "y \<in> set p" by simp
    with facts(1) have "y \<noteq> 0" by simp
    with ys True show ?thesis by (auto simp: legs_def)
  next
    case False
    with k facts(1) have "k \<in> set p" by simp
    from in_tour_has_leg [OF this d] show ?thesis by blast
  qed
  then obtain a b where ab: "(a, b) \<in> set (legs (0 # p))" "a \<noteq> b" "a = k \<or> b = k" by blast
  from tour_keys [OF p ab(1)] have lt: "a < ?n" "b < ?n" by simp_all
  have "shortest_path_length nx G (poi_coords ! a) (poi_coords ! b) = None"
    using ab(2,3) lt cut by auto
  with ab(2) lt have "?dm (a, b) = Some infty"
    by (simp add: distance_matrix_lookup matrix_entry_def)
  then have "\<not> finite_leg infty ?dm (a, b)" by (simp add: finite_leg_def)
  with ab(1) show ?thesis by (auto simp: all_legs_finite_def list_all_iff)
qed

section \<open>Auxiliary facts: fewer than two waypoints, and the printed path\<close>

lemma plan_route_fewer_than_two:
  fixes infty :: "'r::{plus, zero, ord}"
  assumes "0 < infty" and "length poi_coords < 2"
  shows "plan_route nx infty G poi_coords = Inr (OptimalPath [])"
proof -
  from assms(2) have "permutations [1..<length poi_coords] = [[]]" by simp
  then have "solve_tsp infty (distance_matrix nx infty G poi_coords) (length poi_coords) = Inr (Some [0], 0)"
    using assms(1) by (simp only: solve_tsp_def) simp
  then show ?thesis by (simp add: plan_route_def report_def cleaned_path_def)
qed

lemma run_fewer_than_two:
  fixes infty :: "'r::{plus, minus, zero, ord}"
  assumes "0 < infty" and "parse pois_data boundaries_data = Inr (pois, boundaries)"
    and "length pois < 2"
  shows "run geo nx infty pois_data boundaries_data = Inr (OptimalPath [])"
  using assms by (simp add: run_def plan_route_fewer_than_two)

lemma report_route:
  assumes "report nx G poi_coords best_order = Inr (OptimalPath route)"
  shows "\<exists>order full_path. best_order = Some order \<and>
           reconstruct nx G poi_coords (legs order) [] = Inr full_path \<and>
           route = remdups_adj full_path"
  using assms
  by (auto simp: report_def legs_def cleaned_path_remdups_adj split: option.splits if_splits sum.splits)

section \<open>What the script itself fixes about the visibility test and the matrix\<close>

lemma is_valid_edge_iff:
  "is_valid_edge geo p1 p2 boundaries \<longleftrightarrow>
     (\<forall>b \<in> set boundaries. \<not> (intersects geo (p1, p2) b \<and> \<not> touches geo (p1, p2) b))"
  by (induction boundaries) auto

lemma is_valid_edge_no_obstacles: "is_valid_edge geo p1 p2 []"
  by simp

lemma distance_matrix_dom:
  "dom (distance_matrix nx infty G poi_coords) =
     {0..<length poi_coords} \<times> {0..<length poi_coords}"
  by (auto simp: dom_def distance_matrix_lookup split: if_splits)

lemma distance_matrix_diagonal:
  "i < length poi_coords \<Longrightarrow> distance_matrix nx infty G poi_coords (i, i) = Some 0"
  by (simp add: distance_matrix_lookup matrix_entry_def)

section \<open>The search ends without an exception on a square matrix\<close>

lemma try_orders_total:
  assumes "\<forall>q \<in> set perms. \<forall>k \<in> set (legs (0 # q)). k \<in> dom dm"
  shows "\<exists>b m. try_orders infty dm perms st = Inr (b, m)"
  using assms
proof (induction perms arbitrary: st)
  case Nil
  show ?case by (cases st) simp
next
  case (Cons p perms)
  then have "\<forall>k \<in> set (legs (0 # p)). k \<in> dom dm" by simp
  from add_legs_keys [OF this] obtain v r
    where "add_legs infty dm (legs (0 # p)) 0 = Inr (v, r)" by blast
  moreover from Cons have "\<exists>b m. try_orders infty dm perms st' = Inr (b, m)" for st' by simp
  ultimately show ?case by (cases st) (simp add: legs_def)
qed

lemma solve_tsp_total:
  assumes "\<forall>i < n. \<forall>j < n. (i, j) \<in> dom dm"
  shows "\<exists>b m. solve_tsp infty dm n = Inr (b, m)"
  unfolding solve_tsp_def
proof (rule try_orders_total, intro ballI)
  fix q k assume "q \<in> set (permutations [1..<n])" and k: "k \<in> set (legs (0 # q))"
  then have q: "is_permutation_of q [1..<n]" by (simp add: set_permutations is_permutation_of_def)
  obtain a b where ab: "k = (a, b)" by (cases k)
  with tour_keys [OF q] k have "a < n \<and> b < n" by simp
  with assms ab show "k \<in> dom dm" by simp
qed

lemma solve_tsp_returns:
  fixes dm :: "nat \<times> nat \<rightharpoonup> 'r::{plus, zero, linorder}"
  assumes sq: "\<forall>i < n. \<forall>j < n. (i, j) \<in> dom dm"
    and p: "is_permutation_of p [1..<n]" "all_legs_finite infty dm (0 # p)"
      "tour_cost dm (0 # p) = Some c" "c < infty"
  shows "\<exists>order cost. solve_tsp infty dm n = Inr (Some order, cost)"
proof -
  from solve_tsp_total [OF sq] obtain b m where s: "solve_tsp infty dm n = Inr (b, m)" by blast
  have "b \<noteq> None"
  proof
    assume "b = None"
    with try_orders_result [OF s [unfolded solve_tsp_def]]
    have "\<forall>q \<in> set (permutations [1..<n]). \<forall>t.
        add_legs infty dm (legs (0 # q)) 0 = Inr (True, t) \<longrightarrow> infty \<le> t"
      by auto
    moreover from p(1) have "p \<in> set (permutations [1..<n])"
      by (simp add: set_permutations is_permutation_of_def)
    moreover from p(2,3) have "add_legs infty dm (legs (0 # p)) 0 = Inr (True, c)"
      by (simp add: add_legs_tour)
    ultimately have "infty \<le> c" by blast
    with p(4) show False by simp
  qed
  with s show ?thesis by auto
qed

section \<open>No feasible tour\<close>

text \<open>
  Claim C3, as amended.  If no permutation of \<open>1..n-1\<close> has all its legs finite, the
  search selects no order and the script ends normally on the message that no valid path
  exists, without assembling a path; so it does when one waypoint has no path to or from
  any other.  No exception is raised.
\<close>

theorem no_feasible_tour_reported:
  fixes infty :: "'r::{plus, zero, linorder}"
  shows "((\<forall>p. is_permutation_of p [1..<length poi_coords] \<longrightarrow>
             \<not> all_legs_finite infty (distance_matrix nx infty G poi_coords) (0 # p))
          \<longrightarrow> solve_tsp infty (distance_matrix nx infty G poi_coords) (length poi_coords) = Inr (None, infty)
              \<and> plan_route nx infty G poi_coords = Inr NoValidPath)
       \<and> (2 \<le> length poi_coords \<and> k < length poi_coords \<and>
          (\<forall>j < length poi_coords. j \<noteq> k \<longrightarrow>
             shortest_path_length nx G (poi_coords ! k) (poi_coords ! j) = None \<and>
             shortest_path_length nx G (poi_coords ! j) (poi_coords ! k) = None)
          \<longrightarrow> plan_route nx infty G poi_coords = Inr NoValidPath)"
proof (intro conjI impI)
  assume a: "\<forall>p. is_permutation_of p [1..<length poi_coords] \<longrightarrow>
             \<not> all_legs_finite infty (distance_matrix nx infty G poi_coords) (0 # p)"
  then show s: "solve_tsp infty (distance_matrix nx infty G poi_coords) (length poi_coords) = Inr (None, infty)"
    by (intro solve_tsp_no_feasible) blast
  then show "plan_route nx infty G poi_coords = Inr NoValidPath"
    by (simp add: plan_route_def report_def)
next
  assume a: "2 \<le> length poi_coords \<and> k < length poi_coords \<and>
          (\<forall>j < length poi_coords. j \<noteq> k \<longrightarrow>
             shortest_path_length nx G (poi_coords ! k) (poi_coords ! j) = None \<and>
             shortest_path_length nx G (poi_coords ! j) (poi_coords ! k) = None)"
  have "solve_tsp infty (distance_matrix nx infty G poi_coords) (length poi_coords) = Inr (None, infty)"
  proof (rule solve_tsp_no_feasible)
    fix p assume "is_permutation_of p [1..<length poi_coords]"
    with a show "\<not> all_legs_finite infty (distance_matrix nx infty G poi_coords) (0 # p)"
      by (intro cut_off_waypoint_no_tour [of poi_coords k]) auto
  qed
  then show "plan_route nx infty G poi_coords = Inr NoValidPath"
    by (simp add: plan_route_def report_def)
qed

theorem no_feasible_tour_reported_witness:
  "2 \<le> length ([(0, 0), (4, 0), (9, 9)] :: enat point list)
   \<and> 2 < length ([(0, 0), (4, 0), (9, 9)] :: enat point list)
   \<and> \<not> (\<exists>j < length ([(0, 0), (4, 0), (9, 9)] :: enat point list). j \<noteq> 2 \<and>
          \<not> (shortest_path_length
                \<lparr>shortest_path_length =
                   (\<lambda>G a b. if a = b then Some 0
                            else if a = (9, 9) \<or> b = (9, 9) then None else Some 4),
                 shortest_path =
                   (\<lambda>G a b. if a = b then Some [a]
                            else if a = (9, 9) \<or> b = (9, 9) then None else Some [a, b])\<rparr>
                \<lparr>graph_nodes = [(0, 0), (4, 0), (9, 9)], graph_edges = [((0, 0), (4, 0), 4)]\<rparr>
                (([(0, 0), (4, 0), (9, 9)] :: enat point list) ! 2) ([(0, 0), (4, 0), (9, 9)] ! j) = None
             \<and> shortest_path_length
                \<lparr>shortest_path_length =
                   (\<lambda>G a b. if a = b then Some 0
                            else if a = (9, 9) \<or> b = (9, 9) then None else Some 4),
                 shortest_path =
                   (\<lambda>G a b. if a = b then Some [a]
                            else if a = (9, 9) \<or> b = (9, 9) then None else Some [a, b])\<rparr>
                \<lparr>graph_nodes = [(0, 0), (4, 0), (9, 9)], graph_edges = [((0, 0), (4, 0), 4)]\<rparr>
                (([(0, 0), (4, 0), (9, 9)] :: enat point list) ! j) ([(0, 0), (4, 0), (9, 9)] ! 2) = None))
   \<and> plan_route
        \<lparr>shortest_path_length =
           (\<lambda>G a b. if a = b then Some 0
                    else if a = (9, 9) \<or> b = (9, 9) then None else Some 4),
         shortest_path =
           (\<lambda>G a b. if a = b then Some [a]
                    else if a = (9, 9) \<or> b = (9, 9) then None else Some [a, b])\<rparr>
        \<infinity>
        \<lparr>graph_nodes = [(0, 0), (4, 0), (9, 9)], graph_edges = [((0, 0), (4, 0), 4)]\<rparr>
        ([(0, 0), (4, 0), (9, 9)] :: enat point list)
      = Inr NoValidPath"
proof -
  let ?nx = "\<lparr>shortest_path_length =
           (\<lambda>G a b. if a = b then Some 0
                    else if a = (9, 9) \<or> b = (9, 9) then None else Some 4),
         shortest_path =
           (\<lambda>G a b. if a = b then Some [a]
                    else if a = (9, 9) \<or> b = (9, 9) then None else Some [a, b])\<rparr> :: enat networkx"
  let ?G = "\<lparr>graph_nodes = [(0, 0), (4, 0), (9, 9)], graph_edges = [((0, 0), (4, 0), 4)]\<rparr> :: enat graph"
  let ?c = "[(0, 0), (4, 0), (9, 9)] :: enat point list"
  have n: "2 \<le> length ?c" "2 < length ?c" by simp_all
  have cut: "\<forall>j < length ?c. j \<noteq> 2 \<longrightarrow>
      shortest_path_length ?nx ?G (?c ! 2) (?c ! j) = None \<and>
      shortest_path_length ?nx ?G (?c ! j) (?c ! 2) = None"
    by (auto simp: less_Suc_eq numeral_3_eq_3)
  from no_feasible_tour_reported [where poi_coords = ?c and nx = ?nx and infty = \<infinity> and G = ?G and k = 2] n cut
  have r: "plan_route ?nx \<infinity> ?G ?c = Inr NoValidPath" by blast
  have gen: "(\<forall>j < n. j \<noteq> 2 \<longrightarrow> P j) \<Longrightarrow> \<not> (\<exists>j < n. j \<noteq> 2 \<and> \<not> P j)"
    for P and n :: nat by blast
  have cut': "\<not> (\<exists>j < length ?c. j \<noteq> 2 \<and>
      \<not> (shortest_path_length ?nx ?G (?c ! 2) (?c ! j) = None \<and>
         shortest_path_length ?nx ?G (?c ! j) (?c ! 2) = None))"
    by (rule gen) (rule cut)
  show ?thesis by (rule conjI n cut' r)+
qed

text \<open>
  Against the claim as worded (a raised error): two waypoints with no path between them,
  on a graph without edges.  The result is the printed message, a normal end, not an
  exception.
\<close>

theorem no_feasible_tour_not_raised:
  "plan_route
     \<lparr>shortest_path_length = (\<lambda>G a b. if a = b then Some 0 else None),
      shortest_path = (\<lambda>G a b. if a = b then Some [a] else None)\<rparr>
     (\<infinity> :: enat)
     \<lparr>graph_nodes = [(0, 0), (5, 5)], graph_edges = []\<rparr>
     [(0, 0), (5, 5)]
   = Inr NoValidPath
   \<and> \<not> isl (plan_route
     \<lparr>shortest_path_length = (\<lambda>G a b. if a = b then Some 0 else None),
      shortest_path = (\<lambda>G a b. if a = b then Some [a] else None)\<rparr>
     (\<infinity> :: enat)
     \<lparr>graph_nodes = [(0, 0), (5, 5)], graph_edges = []\<rparr>
     [(0, 0), (5, 5)])"
proof -
  let ?nx = "\<lparr>shortest_path_length = (\<lambda>G a b. if a = b then Some 0 else None),
      shortest_path = (\<lambda>G a b. if a = b then Some [a] else None)\<rparr> :: enat networkx"
  let ?G = "\<lparr>graph_nodes = [(0, 0), (5, 5)], graph_edges = []\<rparr> :: enat graph"
  let ?c = "[(0, 0), (5, 5)] :: enat point list"
  have "solve_tsp \<infinity> (distance_matrix ?nx \<infinity> ?G ?c) (length ?c) = Inr (None, \<infinity>)"
  proof (rule solve_tsp_no_feasible)
    fix p assume p: "is_permutation_of p [1..<length ?c]"
    show "\<not> all_legs_finite \<infinity> (distance_matrix ?nx \<infinity> ?G ?c) (0 # p)"
      by (rule cut_off_waypoint_no_tour [of ?c 1, OF _ _ _ p]) (auto simp: less_Suc_eq)
  qed
  then have "plan_route ?nx \<infinity> ?G ?c = Inr NoValidPath" by (simp add: plan_route_def report_def)
  then show ?thesis by simp
qed

section \<open>No input validation\<close>

text \<open>
  Claim C4, as amended.  The script checks neither the rings nor the number of
  waypoints.  Whenever parsing gives fewer than two waypoints, with whatever obstacles,
  the run goes through graph construction and the search and ends normally with the
  empty path.
\<close>

theorem fewer_than_two_waypoints_accepted:
  fixes infty :: "'r::{plus, minus, zero, ord}"
  assumes "0 < infty" and "parse pois_data boundaries_data = Inr (pois, boundaries)"
    and "length pois < 2"
  shows "run geo nx infty pois_data boundaries_data = Inr (OptimalPath [])"
  using assms by (rule run_fewer_than_two)

theorem fewer_than_two_waypoints_accepted_witness:
  "(0 :: enat) < \<infinity>
   \<and> parse [\<lparr>geometry = Point ((3, 3) :: enat point)\<rparr>]
        [\<lparr>geometry = Polygon \<lparr>exterior = [(5, 5), (6, 5), (6, 6), (5, 5)], interiors = []\<rparr>\<rparr>]
      = Inr ([(3, 3)], [])
   \<and> length ([(3, 3)] :: enat point list) < 2
   \<and> run \<lparr>intersects = (\<lambda>l b. False), touches = (\<lambda>l b. False), hypot = (\<lambda>x y. x + y)\<rparr>
        \<lparr>shortest_path_length = (\<lambda>G a b. if a = b then Some 0 else None),
         shortest_path = (\<lambda>G a b. if a = b then Some [a] else None)\<rparr>
        \<infinity>
        [\<lparr>geometry = Point ((3, 3) :: enat point)\<rparr>]
        [\<lparr>geometry = Polygon \<lparr>exterior = [(5, 5), (6, 5), (6, 6), (5, 5)], interiors = []\<rparr>\<rparr>]
      = Inr (OptimalPath [])"
proof -
  have p: "parse [\<lparr>geometry = Point ((3, 3) :: enat point)\<rparr>]
        [\<lparr>geometry = Polygon \<lparr>exterior = [(5, 5), (6, 5), (6, 6), (5, 5)], interiors = []\<rparr>\<rparr>]
      = Inr ([(3, 3)], [])"
    by (simp add: parse_def)
  have i: "(0 :: enat) < \<infinity>" and l: "length ([(3, 3)] :: enat point list) < 2" by simp_all
  note r = fewer_than_two_waypoints_accepted [OF i p l]
  show ?thesis by (rule conjI i p l r)+
qed

text \<open>
  Against the claim as worded (fewer than two waypoints are rejected): one waypoint and
  no obstacles.  No library function is called on this input, and the run ends normally on
  the empty path.
\<close>

theorem single_waypoint_no_error:
  "run \<lparr>intersects = (\<lambda>l b. False), touches = (\<lambda>l b. False), hypot = (\<lambda>x y. x + y)\<rparr>
     \<lparr>shortest_path_length = (\<lambda>G a b. if a = b then Some 0 else None),
      shortest_path = (\<lambda>G a b. if a = b then Some [a] else None)\<rparr>
     (\<infinity> :: enat)
     [\<lparr>geometry = Point (0, 0)\<rparr>] []
   = Inr (OptimalPath [])"
  by (rule run_fewer_than_two [where pois = "[(0, 0)]" and boundaries = "[]"])
    (simp_all add: parse_def)

section \<open>The printed path\<close>

lemma plan_route_path:
  fixes infty :: "'r::{plus, zero, ord}"
  assumes "plan_route nx infty G poi_coords = Inr (OptimalPath route)"
  shows "distinct_adj route \<and>
         (\<exists>order cost full_path.
            solve_tsp infty (distance_matrix nx infty G poi_coords) (length poi_coords)
              = Inr (Some order, cost) \<and>
            reconstruct nx G poi_coords (legs order) [] = Inr full_path \<and>
            route = remdups_adj full_path)"
proof -
  from assms obtain best_order cost
    where s: "solve_tsp infty (distance_matrix nx infty G poi_coords) (length poi_coords)
                = Inr (best_order, cost)"
      and r: "report nx G poi_coords best_order = Inr (OptimalPath route)"
    by (auto simp: plan_route_def split: sum.splits prod.splits)
  from report_route [OF r] obtain order full_path
    where o: "best_order = Some order"
      and f: "reconstruct nx G poi_coords (legs order) [] = Inr full_path"
      and c: "route = remdups_adj full_path"
    by blast
  from c have "distinct_adj route" by simp
  with s o f c show ?thesis by blast
qed

lemma run_path:
  fixes infty :: "'r::{plus, minus, zero, ord}"
  assumes "run geo nx infty pois_data boundaries_data = Inr (OptimalPath route)"
  shows "distinct_adj route"
proof -
  from assms obtain pois boundaries
    where "plan_route nx infty (build_graph geo (collect_nodes pois boundaries) boundaries) pois
             = Inr (OptimalPath route)"
    by (auto simp: run_def split: sum.splits prod.splits)
  from plan_route_path [OF this] show ?thesis by (rule conjunct1)
qed

text \<open>
  Claim C7.  Every path the script prints for the order it selected has no two equal
  consecutive points: it is the concatenation of the shortest paths of the legs with every
  run of equal adjacent points merged into one.  This holds for the stage after the graph
  is built and for the whole run.
\<close>

theorem route_no_consecutive_duplicates:
  fixes infty :: "'r::{plus, minus, zero, ord}"
  shows "(plan_route nx infty G poi_coords = Inr (OptimalPath route) \<longrightarrow>
           distinct_adj route \<and>
           (\<exists>order cost full_path.
              solve_tsp infty (distance_matrix nx infty G poi_coords) (length poi_coords)
                = Inr (Some order, cost) \<and>
              reconstruct nx G poi_coords (legs order) [] = Inr full_path \<and>
              route = remdups_adj full_path))
       \<and> (run geo nx infty pois_data boundaries_data = Inr (OptimalPath printed) \<longrightarrow>
           distinct_adj printed)"
  using plan_route_path [of nx infty G poi_coords route]
    run_path [of geo nx infty pois_data boundaries_data printed]
  by blast

text \<open>
  Three waypoints on a line and no obstacles; the stand-ins for the libraries give the
  distances along the line and the direct edge as the path of a leg.  The two leg paths
  share the junction \<open>(1,0)\<close>, which appears once in the printed path.
\<close>

theorem route_no_consecutive_duplicates_witness:
  "run \<lparr>intersects = (\<lambda>l b. False), touches = (\<lambda>l b. False), hypot = (\<lambda>x y. x + y)\<rparr>
     \<lparr>shortest_path_length =
        (\<lambda>G a b. Some (if fst a \<le> fst b then fst b - fst a else fst a - fst b)),
      shortest_path = (\<lambda>G a b. if a = b then Some [a] else Some [a, b])\<rparr>
     (\<infinity> :: enat)
     [\<lparr>geometry = Point (0, 0)\<rparr>, \<lparr>geometry = Point (1, 0)\<rparr>, \<lparr>geometry = Point (2, 0)\<rparr>] []
   = Inr (OptimalPath [(0, 0), (1, 0), (2, 0)])
   \<and> reconstruct
     \<lparr>shortest_path_length =
        (\<lambda>G a b. Some (if fst a \<le> fst b then fst b - fst a else fst a - fst b)),
      shortest_path = (\<lambda>G a b. if a = b then Some [a] else Some [a, b])\<rparr>
     \<lparr>graph_nodes = [(0, 0), (1, 0), (2, 0)],
      graph_edges = [((0, 0), (1, 0), 1), ((0, 0), (2, 0), 2), ((1, 0), (2, 0), 1)]\<rparr>
     [(0, 0), (1, 0), (2, 0)] (legs [0, 1, 2]) []
   = Inr ([(0, 0), (1, 0), (1, 0), (2, 0)] :: enat point list)
   \<and> distinct_adj ([(0, 0), (1, 0), (2, 0)] :: enat point list)"
proof -
  let ?geo = "\<lparr>intersects = (\<lambda>l b. False), touches = (\<lambda>l b. False), hypot = (\<lambda>x y. x + y)\<rparr>
      :: enat geometry_library"
  let ?nx = "\<lparr>shortest_path_length =
        (\<lambda>G a b. Some (if fst a \<le> fst b then fst b - fst a else fst a - fst b)),
      shortest_path = (\<lambda>G a b. if a = b then Some [a] else Some [a, b])\<rparr> :: enat networkx"
  let ?G = "\<lparr>graph_nodes = [(0, 0), (1, 0), (2, 0)],
      graph_edges = [((0, 0), (1, 0), 1), ((0, 0), (2, 0), 2), ((1, 0), (2, 0), 1)]\<rparr> :: enat graph"
  let ?c = "[(0, 0), (1, 0), (2, 0)] :: enat point list"
  let ?pd = "[\<lparr>geometry = Point (0, 0)\<rparr>, \<lparr>geometry = Point (1, 0)\<rparr>, \<lparr>geometry = Point (2, 0)\<rparr>]
      :: enat feature list"
  have len: "length ?c = 3" by simp
  have s: "solve_tsp \<infinity> (distance_matrix ?nx \<infinity> G ?c) (length ?c) = Inr (Some [0, 1, 2], 2)" for G
    unfolding len solve_tsp_def permutations_upt_3
    by (simp add: distance_matrix_lookup matrix_entry_def numeral_eq_enat zero_enat_def one_enat_def)
  have f: "reconstruct ?nx ?G ?c (legs [0, 1, 2]) [] = Inr [(0, 0), (1, 0), (1, 0), (2, 0)]"
    by (simp add: legs_def get_item_def)
  have r: "report ?nx G ?c (Some [0, 1, 2]) = Inr (OptimalPath [(0, 0), (1, 0), (2, 0)])" for G
    by (simp add: report_def get_item_def cleaned_path_def)
  have p: "plan_route ?nx \<infinity> G ?c = Inr (OptimalPath [(0, 0), (1, 0), (2, 0)])" for G
    unfolding plan_route_def s by (simp only: sum.case prod.case r)
  have parsed: "parse ?pd [] = Inr (?c, [])" by (simp add: parse_def)
  have run: "run ?geo ?nx \<infinity> ?pd [] = Inr (OptimalPath [(0, 0), (1, 0), (2, 0)])"
    unfolding run_def parsed by (simp only: sum.case prod.case p)
  from route_no_consecutive_duplicates
    [where geo = ?geo and nx = ?nx and infty = \<infinity> and pois_data = ?pd
       and boundaries_data = "[]" and printed = "[(0, 0), (1, 0), (2, 0)]", THEN conjunct2] run
  have d: "distinct_adj ([(0, 0), (1, 0), (2, 0)] :: enat point list)" by (rule mp)
  show ?thesis by (rule conjI run f d)+
qed

section \<open>Graph nodes\<close>

text \<open>
  Claim C9, as amended.  Node identity is equality of coordinates: the node list holds
  every coordinate pair of the input exactly once, so two input points become one node
  exactly when their coordinates are equal, and stay two nodes however close they are.
\<close>

theorem nodes_deduplicated_by_equality:
  "distinct (collect_nodes pois boundaries)
   \<and> set (collect_nodes pois boundaries) =
       set pois \<union> (\<Union>b \<in> set boundaries. set (exterior b) \<union> (\<Union>r \<in> set (interiors b). set r))
   \<and> length (collect_nodes [p, q] []) = (if p = q then 1 else 2)"
  by (simp add: collect_nodes_distinct collect_nodes_set) (simp add: collect_nodes_def)

theorem nodes_deduplicated_by_equality_witness:
  "distinct (collect_nodes [(0, 0), (1, 1), (0, 0)]
       [\<lparr>exterior = [(1, 1), (3, 1), (3, 3), (1, 1)], interiors = []\<rparr> :: real polygon])
   \<and> collect_nodes [(0, 0), (1, 1), (0, 0)]
       [\<lparr>exterior = [(1, 1), (3, 1), (3, 3), (1, 1)], interiors = []\<rparr> :: real polygon]
     = [(0, 0), (3, 1), (3, 3), (1, 1)]
   \<and> length (collect_nodes [(0, 0), (1 / 2 ^ 40, 0)] ([] :: real polygon list)) = 2"
proof -
  note t = nodes_deduplicated_by_equality
    [of "[(0, 0), (1, 1), (0, 0)]"
        "[\<lparr>exterior = [(1, 1), (3, 1), (3, 3), (1, 1)], interiors = []\<rparr> :: real polygon]"
        "(0, 0) :: real point" "(1 / 2 ^ 40, 0) :: real point"]
  from t have d: "distinct (collect_nodes [(0, 0), (1, 1), (0, 0)]
       [\<lparr>exterior = [(1, 1), (3, 1), (3, 3), (1, 1)], interiors = []\<rparr> :: real polygon])"
    by (rule conjunct1)
  from t [THEN conjunct2, THEN conjunct2]
  have l: "length (collect_nodes [(0, 0), (1 / 2 ^ 40, 0)] ([] :: real polygon list)) = 2"
    by simp
  have e: "collect_nodes [(0, 0), (1, 1), (0, 0)]
       [\<lparr>exterior = [(1, 1), (3, 1), (3, 3), (1, 1)], interiors = []\<rparr> :: real polygon]
     = [(0, 0), (3, 1), (3, 3), (1, 1)]"
    by (simp add: collect_nodes_def)
  show ?thesis by (rule conjI d e l)+
qed

text \<open>
  Against the claim as worded (points within a tolerance become one node): for every
  positive tolerance there are two points closer than it in both coordinates that remain
  two nodes.
\<close>

theorem close_points_stay_distinct_nodes:
  "\<not> (\<exists>tol > 0. \<forall>p q :: real point.
        \<bar>fst p - fst q\<bar> < tol \<and> \<bar>snd p - snd q\<bar> < tol
        \<longrightarrow> length (collect_nodes [p, q] []) = 1)"
proof
  assume "\<exists>tol > 0. \<forall>p q :: real point.
        \<bar>fst p - fst q\<bar> < tol \<and> \<bar>snd p - snd q\<bar> < tol
        \<longrightarrow> length (collect_nodes [p, q] []) = 1"
  then obtain tol :: real where tol: "0 < tol"
    and all: "\<And>p q :: real point. \<bar>fst p - fst q\<bar> < tol \<and> \<bar>snd p - snd q\<bar> < tol
        \<Longrightarrow> length (collect_nodes [p, q] []) = 1"
    by blast
  from tol all [of "(0, 0)" "(tol / 2, 0)"]
  have "length (collect_nodes [(0, 0), (tol / 2, 0)] []) = 1" by simp
  with tol show False by (simp add: collect_nodes_def)
qed

section \<open>Ties between tours\<close>

lemma solve_tsp_first:
  fixes dm :: "nat \<times> nat \<rightharpoonup> 'r::{plus, zero, linorder}"
  assumes s: "solve_tsp infty dm n = Inr (Some order, cost)"
    and q: "is_permutation_of q [1..<n]" "all_legs_finite infty dm (0 # q)"
      "tour_cost dm (0 # q) = Some cost"
  shows "order \<le> 0 # q"
proof -
  from solve_tsp_selected [OF s] obtain xs p ys
    where split: "permutations [1..<n] = xs @ p # ys" and order: "order = 0 # p"
      and before: "\<forall>q \<in> set xs. \<forall>t. add_legs infty dm (legs (0 # q)) 0 = Inr (True, t) \<longrightarrow> cost < t"
    by blast
  from q have ev: "add_legs infty dm (legs (0 # q)) 0 = Inr (True, cost)" by (simp add: add_legs_tour)
  with before have "q \<notin> set xs" by fastforce
  moreover from q(1) have "q \<in> set (xs @ p # ys)"
    unfolding split [symmetric] by (simp add: set_permutations is_permutation_of_def)
  ultimately have "q = p \<or> q \<in> set ys" by auto
  moreover have "sorted_wrt (<) (xs @ p # ys)"
    unfolding split [symmetric] by (rule permutations_sorted) simp
  then have "\<forall>y \<in> set ys. p < y" by (simp add: sorted_wrt_append)
  ultimately have "p \<le> q" by auto
  with order show ?thesis by simp
qed

lemma scenario_A:
  fixes nx :: "real networkx" and h infty :: real
  assumes h: "10 < h" and i: "20 < infty"
    and l01: "shortest_path_length nx G (0, 0) (10, 0) = Some 10"
    and l12: "shortest_path_length nx G (10, 0) (10, 10) = Some 10"
    and l02: "shortest_path_length nx G (0, 0) (10, 10) = Some h"
    and l21: "shortest_path_length nx G (10, 10) (10, 0) = Some 10"
    and p01: "shortest_path nx G (0, 0) (10, 0) = Some [(0, 0), (10, 0)]"
    and p12: "shortest_path nx G (10, 0) (10, 10) = Some [(10, 0), (10, 10)]"
  shows "tour_cost (distance_matrix nx infty G [(0, 0), (10, 0), (10, 10)]) [0, 1, 2] = Some 20"
    and "tour_cost (distance_matrix nx infty G [(0, 0), (10, 0), (10, 10)]) [0, 2, 1] = Some (h + 10)"
    and "solve_tsp infty (distance_matrix nx infty G [(0, 0), (10, 0), (10, 10)]) 3
           = Inr (Some [0, 1, 2], 20)"
    and "plan_route nx infty G [(0, 0), (10, 0), (10, 10)]
           = Inr (OptimalPath [(0, 0), (10, 0), (10, 10)])"
proof -
  let ?c = "[(0, 0), (10, 0), (10, 10)] :: real point list"
  let ?dm = "distance_matrix nx infty G ?c"
  have d01: "?dm (0, 1) = Some 10" and d12: "?dm (1, 2) = Some 10"
    and d02: "?dm (0, 2) = Some h" and d21: "?dm (2, 1) = Some 10"
    by (simp_all add: distance_matrix_lookup matrix_entry_def l01 l12 l02 l21)
  note ds = d01 d12 d02 d21 d01 [unfolded One_nat_def] d12 [unfolded One_nat_def]
    d21 [unfolded One_nat_def]
  show c012: "tour_cost ?dm [0, 1, 2] = Some 20"
    by (simp add: tour_cost_def legs_def ds)
  show "tour_cost ?dm [0, 2, 1] = Some (h + 10)"
    by (simp add: tour_cost_def legs_def ds)
  show s: "solve_tsp infty ?dm 3 = Inr (Some [0, 1, 2], 20)"
    unfolding solve_tsp_def permutations_upt_3 using h i
    by (simp add: ds)
  have len: "length ?c = 3" by simp
  have r: "report nx G ?c (Some [0, 1, 2]) = Inr (OptimalPath [(0, 0), (10, 0), (10, 10)])"
    by (simp add: report_def get_item_def cleaned_path_def p01 p12)
  show "plan_route nx infty G ?c = Inr (OptimalPath [(0, 0), (10, 0), (10, 10)])"
    unfolding plan_route_def len s by (simp only: sum.case prod.case r)
qed

text \<open>
  Claim C6, as amended.  Among the permutations of \<open>1..n-1\<close> with all legs finite that
  reach the returned cost, the selected order is the least in lexicographic order, which
  is the order of the enumeration (the enumeration of \<open>1..n-1\<close> is strictly increasing).  For the waypoints \<open>(0,0)\<close>, \<open>(10,0)\<close>, \<open>(10,10)\<close> without
  obstacles (legs of length \<open>10\<close>, \<open>10\<close> and \<open>h > 10\<close> for the diagonal) there is no tie: the
  order \<open>[0,1,2]\<close> costs \<open>20\<close>, the order \<open>[0,2,1]\<close> costs \<open>h + 10\<close>, and \<open>[0,1,2]\<close> is selected
  with the path \<open>(0,0)\<close>, \<open>(10,0)\<close>, \<open>(10,10)\<close>.
\<close>

theorem first_minimum_selected:
  fixes dm :: "nat \<times> nat \<rightharpoonup> 'r::{plus, zero, linorder}"
    and nx :: "real networkx" and h inf_real :: real
  shows "(solve_tsp infty dm n = Inr (Some order, cost) \<and> is_permutation_of q [1..<n] \<and>
          all_legs_finite infty dm (0 # q) \<and> tour_cost dm (0 # q) = Some cost
          \<longrightarrow> order \<le> 0 # q)
       \<and> (10 < h \<and> 20 < inf_real \<and>
          shortest_path_length nx G (0, 0) (10, 0) = Some 10 \<and>
          shortest_path_length nx G (10, 0) (10, 10) = Some 10 \<and>
          shortest_path_length nx G (0, 0) (10, 10) = Some h \<and>
          shortest_path_length nx G (10, 10) (10, 0) = Some 10 \<and>
          shortest_path nx G (0, 0) (10, 0) = Some [(0, 0), (10, 0)] \<and>
          shortest_path nx G (10, 0) (10, 10) = Some [(10, 0), (10, 10)]
          \<longrightarrow> tour_cost (distance_matrix nx inf_real G [(0, 0), (10, 0), (10, 10)]) [0, 1, 2] = Some 20 \<and>
              tour_cost (distance_matrix nx inf_real G [(0, 0), (10, 0), (10, 10)]) [0, 2, 1] = Some (h + 10) \<and>
              20 < h + 10 \<and>
              solve_tsp inf_real (distance_matrix nx inf_real G [(0, 0), (10, 0), (10, 10)]) 3
                = Inr (Some [0, 1, 2], 20) \<and>
              plan_route nx inf_real G [(0, 0), (10, 0), (10, 10)]
                = Inr (OptimalPath [(0, 0), (10, 0), (10, 10)]))
       \<and> sorted_wrt (<) (permutations [1..<n])"
proof (intro conjI impI)
  assume "solve_tsp infty dm n = Inr (Some order, cost) \<and> is_permutation_of q [1..<n] \<and>
          all_legs_finite infty dm (0 # q) \<and> tour_cost dm (0 # q) = Some cost"
  then show "order \<le> 0 # q" by (intro solve_tsp_first [of infty dm n order cost q]) simp_all
next
  assume a: "10 < h \<and> 20 < inf_real \<and>
          shortest_path_length nx G (0, 0) (10, 0) = Some 10 \<and>
          shortest_path_length nx G (10, 0) (10, 10) = Some 10 \<and>
          shortest_path_length nx G (0, 0) (10, 10) = Some h \<and>
          shortest_path_length nx G (10, 10) (10, 0) = Some 10 \<and>
          shortest_path nx G (0, 0) (10, 0) = Some [(0, 0), (10, 0)] \<and>
          shortest_path nx G (10, 0) (10, 10) = Some [(10, 0), (10, 10)]"
  then have h: "10 < h" and i: "20 < inf_real"
    and l01: "shortest_path_length nx G (0, 0) (10, 0) = Some 10"
    and l12: "shortest_path_length nx G (10, 0) (10, 10) = Some 10"
    and l02: "shortest_path_length nx G (0, 0) (10, 10) = Some h"
    and l21: "shortest_path_length nx G (10, 10) (10, 0) = Some 10"
    and p01: "shortest_path nx G (0, 0) (10, 0) = Some [(0, 0), (10, 0)]"
    and p12: "shortest_path nx G (10, 0) (10, 10) = Some [(10, 0), (10, 10)]"
    by simp_all
  note sc = scenario_A [OF h i l01 l12 l02 l21 p01 p12]
  show "tour_cost (distance_matrix nx inf_real G [(0, 0), (10, 0), (10, 10)]) [0, 1, 2] = Some 20"
    by (rule sc(1))
  show "tour_cost (distance_matrix nx inf_real G [(0, 0), (10, 0), (10, 10)]) [0, 2, 1] = Some (h + 10)"
    by (rule sc(2))
  show "20 < h + 10" using h by simp
  show "solve_tsp inf_real (distance_matrix nx inf_real G [(0, 0), (10, 0), (10, 10)]) 3
                = Inr (Some [0, 1, 2], 20)"
    by (rule sc(3))
  show "plan_route nx inf_real G [(0, 0), (10, 0), (10, 10)]
                = Inr (OptimalPath [(0, 0), (10, 0), (10, 10)])"
    by (rule sc(4))
next
  show "sorted_wrt (<) (permutations [1..<n])"
    by (rule permutations_sorted) simp
qed

text \<open>
  An instance with a real tie (both orders cost \<open>3\<close>, and \<open>[0,1,2]\<close> is selected), and
  the three waypoints with Euclidean leg lengths and \<open>2 ^ 1024\<close>, above every finite
  double, standing for \<open>float("inf")\<close>.
\<close>

theorem first_minimum_selected_witness:
  "solve_tsp \<infinity>
       [(0, 0) \<mapsto> 0, (0, 1) \<mapsto> 1, (0, 2) \<mapsto> 2,
        (1, 0) \<mapsto> 1, (1, 1) \<mapsto> 0, (1, 2) \<mapsto> 2,
        (2, 0) \<mapsto> 2, (2, 1) \<mapsto> 1, (2, 2) \<mapsto> (0 :: enat)] 3
     = Inr (Some [0, 1, 2], 3)
   \<and> is_permutation_of [2, 1] [1..<3]
   \<and> all_legs_finite \<infinity>
       [(0, 0) \<mapsto> 0, (0, 1) \<mapsto> 1, (0, 2) \<mapsto> 2,
        (1, 0) \<mapsto> 1, (1, 1) \<mapsto> 0, (1, 2) \<mapsto> 2,
        (2, 0) \<mapsto> 2, (2, 1) \<mapsto> 1, (2, 2) \<mapsto> (0 :: enat)] [0, 2, 1]
   \<and> tour_cost
       [(0, 0) \<mapsto> 0, (0, 1) \<mapsto> 1, (0, 2) \<mapsto> 2,
        (1, 0) \<mapsto> 1, (1, 1) \<mapsto> 0, (1, 2) \<mapsto> 2,
        (2, 0) \<mapsto> 2, (2, 1) \<mapsto> 1, (2, 2) \<mapsto> (0 :: enat)] [0, 2, 1] = Some 3
   \<and> ([0, 1, 2] :: nat list) \<le> [0, 2, 1]
   \<and> (10 :: real) < sqrt 200
   \<and> (20 :: real) < 2 ^ 1024
   \<and> plan_route
       \<lparr>shortest_path_length = (\<lambda>G a b. Some (sqrt ((fst b - fst a)\<^sup>2 + (snd b - snd a)\<^sup>2))),
        shortest_path = (\<lambda>G a b. Some [a, b])\<rparr>
       (2 ^ 1024)
       \<lparr>graph_nodes = [(0, 0), (10, 0), (10, 10)],
        graph_edges = [((0, 0), (10, 0), 10), ((0, 0), (10, 10), sqrt 200), ((10, 0), (10, 10), 10)]\<rparr>
       [(0, 0), (10, 0), (10, 10)]
     = Inr (OptimalPath [(0, 0), (10, 0), (10, 10)])"
proof -
  let ?tie = "[(0, 0) \<mapsto> 0, (0, 1) \<mapsto> 1, (0, 2) \<mapsto> 2,
        (1, 0) \<mapsto> 1, (1, 1) \<mapsto> 0, (1, 2) \<mapsto> 2,
        (2, 0) \<mapsto> 2, (2, 1) \<mapsto> 1, (2, 2) \<mapsto> (0 :: enat)] :: nat \<times> nat \<rightharpoonup> enat"
  let ?nx = "\<lparr>shortest_path_length = (\<lambda>G a b. Some (sqrt ((fst b - fst a)\<^sup>2 + (snd b - snd a)\<^sup>2))),
        shortest_path = (\<lambda>G a b. Some [a, b])\<rparr> :: real networkx"
  let ?G = "\<lparr>graph_nodes = [(0, 0), (10, 0), (10, 10)],
        graph_edges = [((0, 0), (10, 0), 10), ((0, 0), (10, 10), sqrt 200), ((10, 0), (10, 10), 10)]\<rparr>
        :: real graph"
  have s: "solve_tsp \<infinity> ?tie 3 = Inr (Some [0, 1, 2], 3)"
    unfolding solve_tsp_def permutations_upt_3
    by (simp add: numeral_eq_enat zero_enat_def one_enat_def)
  have p: "is_permutation_of [2, 1] [1..<3 :: nat]"
    by (simp add: is_permutation_of_def upt_rec numeral_3_eq_3)
  have f: "all_legs_finite \<infinity> ?tie [0, 2, 1]"
    by (simp add: all_legs_finite_def legs_def finite_leg_def)
  have c: "tour_cost ?tie [0, 2, 1] = Some 3"
    by (simp add: tour_cost_def legs_def numeral_eq_enat zero_enat_def one_enat_def)
  note t = first_minimum_selected
    [where infty = "\<infinity> :: enat" and dm = ?tie and n = 3 and order = "[0, 1, 2]" and cost = 3
       and q = "[2, 1]" and h = "sqrt 200" and inf_real = "2 ^ 1024" and nx = ?nx and G = ?G]
  have le: "([0, 1, 2] :: nat list) \<le> [0, 2, 1]"
    by (rule t [THEN conjunct1, rule_format, OF conjI [OF s conjI [OF p conjI [OF f c]]]])
  have h: "(10 :: real) < sqrt 200" by (rule real_less_rsqrt) simp
  have i: "(20 :: real) < 2 ^ 1024" by simp
  have sq: "sqrt 100 = 10" by (rule real_sqrt_unique) simp_all
  have l01: "shortest_path_length ?nx ?G (0, 0) (10, 0) = Some 10"
    and l12: "shortest_path_length ?nx ?G (10, 0) (10, 10) = Some 10"
    and l02: "shortest_path_length ?nx ?G (0, 0) (10, 10) = Some (sqrt 200)"
    and l21: "shortest_path_length ?nx ?G (10, 10) (10, 0) = Some 10"
    by (simp_all add: sq)
  have p01: "shortest_path ?nx ?G (0, 0) (10, 0) = Some [(0, 0), (10, 0)]"
    and p12: "shortest_path ?nx ?G (10, 0) (10, 10) = Some [(10, 0), (10, 10)]"
    by simp_all
  have hyps: "10 < sqrt 200 \<and> 20 < (2 ^ 1024 :: real) \<and>
          shortest_path_length ?nx ?G (0, 0) (10, 0) = Some 10 \<and>
          shortest_path_length ?nx ?G (10, 0) (10, 10) = Some 10 \<and>
          shortest_path_length ?nx ?G (0, 0) (10, 10) = Some (sqrt 200) \<and>
          shortest_path_length ?nx ?G (10, 10) (10, 0) = Some 10 \<and>
          shortest_path ?nx ?G (0, 0) (10, 0) = Some [(0, 0), (10, 0)] \<and>
          shortest_path ?nx ?G (10, 0) (10, 10) = Some [(10, 0), (10, 10)]"
    by (rule conjI h i l01 l12 l02 l21 p01 p12)+
  from t [THEN conjunct2, THEN conjunct1, rule_format, OF hyps]
  have r: "plan_route ?nx (2 ^ 1024) ?G [(0, 0), (10, 0), (10, 10)]
     = Inr (OptimalPath [(0, 0), (10, 0), (10, 10)])"
    by (elim conjE)
  show ?thesis by (rule conjI s p f c le h i r)+
qed

text \<open>
  Against the claim as worded (the two orders cost the same): on the matrix the
  specification gives for these waypoints, \<open>[0,1,2]\<close> costs \<open>20\<close> and \<open>[0,2,1]\<close> costs
  \<open>24.142\<close>.
\<close>

theorem scenario_A_costs_differ:
  "tour_cost
     [(0, 0) \<mapsto> 0, (0, 1) \<mapsto> 10, (0, 2) \<mapsto> 14142 / 1000,
      (1, 0) \<mapsto> 10, (1, 1) \<mapsto> 0, (1, 2) \<mapsto> 10,
      (2, 0) \<mapsto> 14142 / 1000, (2, 1) \<mapsto> 10, (2, 2) \<mapsto> (0 :: real)] [0, 1, 2] = Some 20
   \<and> tour_cost
     [(0, 0) \<mapsto> 0, (0, 1) \<mapsto> 10, (0, 2) \<mapsto> 14142 / 1000,
      (1, 0) \<mapsto> 10, (1, 1) \<mapsto> 0, (1, 2) \<mapsto> 10,
      (2, 0) \<mapsto> 14142 / 1000, (2, 1) \<mapsto> 10, (2, 2) \<mapsto> (0 :: real)] [0, 2, 1] = Some (24142 / 1000)
   \<and> tour_cost
     [(0, 0) \<mapsto> 0, (0, 1) \<mapsto> 10, (0, 2) \<mapsto> 14142 / 1000,
      (1, 0) \<mapsto> 10, (1, 1) \<mapsto> 0, (1, 2) \<mapsto> 10,
      (2, 0) \<mapsto> 14142 / 1000, (2, 1) \<mapsto> 10, (2, 2) \<mapsto> (0 :: real)] [0, 1, 2]
     \<noteq> tour_cost
     [(0, 0) \<mapsto> 0, (0, 1) \<mapsto> 10, (0, 2) \<mapsto> 14142 / 1000,
      (1, 0) \<mapsto> 10, (1, 1) \<mapsto> 0, (1, 2) \<mapsto> 10,
      (2, 0) \<mapsto> 14142 / 1000, (2, 1) \<mapsto> 10, (2, 2) \<mapsto> (0 :: real)] [0, 2, 1]"
  by (simp add: tour_cost_def legs_def)

end
